theory Spec2Isabelle
  imports Main "HOL-Library.Sublist"
begin

section \<open>Data model of \<^verbatim>\<open>compendium-directory.ts\<close>\<close>

text \<open>
  Strings are lists of code units: \<open>length\<close> is JavaScript's \<^verbatim>\<open>String.length\<close>,
  \<open>prefix\<close> is \<^verbatim>\<open>startsWith\<close> and \<open>sublist\<close> (a contiguous segment) is
  \<^verbatim>\<open>String.prototype.includes\<close>.
\<close>

text \<open>\<^verbatim>\<open>pack.metadata\<close>: the fields the directory reads (\<^verbatim>\<open>id\<close>, \<^verbatim>\<open>label\<close>, \<^verbatim>\<open>type\<close>).\<close>

record packMetadata =
  md_id :: string
  md_label :: string
  md_type :: string

text \<open>
  \<^verbatim>\<open>CompendiumIndexData\<close>, one entry of \<^verbatim>\<open>pack.index\<close>: \<^verbatim>\<open>_id\<close>, \<^verbatim>\<open>name\<close>, \<^verbatim>\<open>img\<close>
  (the source tests \<^verbatim>\<open>typeof match.img === "string"\<close>, so it may be missing) and \<^verbatim>\<open>type\<close>.
\<close>

record indexEntry =
  e_id :: string
  e_name :: string
  e_img :: "string option"
  e_type :: string

text \<open>
  \<^verbatim>\<open>CompendiumCollection\<close>. \<^verbatim>\<open>index\<close> is a keyed collection in the source; it is a list
  here, \<^verbatim>\<open>index.size\<close> is its length and \<^verbatim>\<open>index.get(id)\<close> finds the first entry with
  that \<^verbatim>\<open>_id\<close>.
\<close>

record pack =
  collection :: string
  title :: string
  documentName :: string
  is_private :: bool
  index :: "indexEntry list"
  metadata :: packMetadata

text \<open>
  The ambient host state the class reads: \<^verbatim>\<open>game.packs\<close>, \<^verbatim>\<open>game.user.isGM\<close>,
  \<^verbatim>\<open>s.toLocaleLowerCase(game.i18n.lang)\<close> (the case folding of the active language, a
  parameter), \<^verbatim>\<open>game.i18n.localize\<close>, \<^verbatim>\<open>String.prototype.titleCase\<close>, the number of
  handlers in \<^verbatim>\<open>this._dragDrop\<close>, and the tokenizer of the search library, which the
  constructor leaves at its default.
\<close>

record game =
  packs :: "pack list"
  isGM :: bool
  toLocaleLowerCase :: "string \<Rightarrow> string"
  tokenize :: "string \<Rightarrow> string list"
  localize :: "string \<Rightarrow> string"
  titleCase :: "string \<Rightarrow> string"
  dragDropCount :: nat

text \<open>\<^verbatim>\<open>game.packs.get(id)\<close>: \<^verbatim>\<open>game.packs\<close> is keyed by \<^verbatim>\<open>pack.collection\<close>.\<close>

definition packs_get :: "game \<Rightarrow> string \<Rightarrow> pack option" where
  "packs_get g c = find (\<lambda>p. collection p = c) (packs g)"

definition index_get :: "pack \<Rightarrow> string \<Rightarrow> indexEntry option" where
  "index_get p i = find (\<lambda>e. e_id e = i) (index p)"

datatype error =
    DuplicateID string
  | ErrorPF2e string
  | TypeError
  | StrictNotFound string

section \<open>The search engine\<close>

text \<open>
  The documents handed to the engine by \<^verbatim>\<open>#compileSearchIndex\<close>:
  \<^verbatim>\<open>{ ...i, metadata: pack.metadata }\<close>. The entry's own \<^verbatim>\<open>type\<close> stays in \<open>d_type\<close>; the
  owning pack's type is \<open>md_type (d_metadata d)\<close>.
\<close>

record document =
  d_id :: string
  d_name :: string
  d_img :: "string option"
  d_type :: string
  d_metadata :: packMetadata

text \<open>\<^verbatim>\<open>storeFields: ["img", "metadata", "name", "type"]\<close>.\<close>

record storedFields =
  s_img :: "string option"
  s_metadata :: packMetadata
  s_name :: string
  s_type :: string

text \<open>
  A search result: the document's id and its stored fields. The relevance score (a
  floating-point number) and the ordering by score are left out: results are listed in
  insertion order.
\<close>

record searchResult =
  r_id :: string
  r_img :: "string option"
  r_metadata :: packMetadata
  r_name :: string
  r_type :: string

datatype combinator = AND | OR

text \<open>
  The options the constructor passes to \<^verbatim>\<open>new MiniSearch\<close>. \<^verbatim>\<open>fields: ["name"]\<close>,
  \<^verbatim>\<open>idField: "_id"\<close> and the stored fields are fixed by the record types above.
\<close>

record options =
  opt_processTerm :: "string \<Rightarrow> string option"
  opt_tokenize :: "string \<Rightarrow> string list"
  opt_combineWith :: combinator
  opt_prefix :: bool

text \<open>
  Modelled from the spec: the MiniSearch library (\<^verbatim>\<open>import MiniSearch from "minisearch"\<close>)
  is not part of the source tree. Spec 4.2: an inverted, prefix-capable text index over the
  display name; terms that the term processor rejects are dropped from indexing and from
  queries; all terms of a query must match (AND), each by prefix; auxiliary fields are stored
  and returned with each match; bulk insertion; an identifier that is already present is a
  signalled duplicate-key error; the empty query has no results.

  \<open>ms_stored\<close> holds the identifiers with their stored fields in insertion order,
  \<open>ms_index\<close> is the inverted index from a term to the identifiers of the documents whose
  name has it.
\<close>

record miniSearch =
  ms_options :: options
  ms_stored :: "(string \<times> storedFields) list"
  ms_index :: "(string \<times> string list) list"

text \<open>Modelled from the spec: the library's constructor is missing; the index is built
  once, from nothing, by bulk insertion.\<close>

definition newMiniSearch :: "options \<Rightarrow> miniSearch" where
  "newMiniSearch opts = \<lparr>ms_options = opts, ms_stored = [], ms_index = []\<rparr>"

text \<open>Modelled from the spec: the library's term pipeline is missing. Tokenize, process
  each term, drop the terms the processor rejected (\<^verbatim>\<open>null\<close>): "terms shorter than 2
  characters are dropped entirely (they are not indexed and cannot be matched)".\<close>

definition processTerms :: "options \<Rightarrow> string \<Rightarrow> string list" where
  "processTerms opts s = List.map_filter (opt_processTerm opts) (opt_tokenize opts s)"

text \<open>Modelled from the spec: the library's inverted index is missing. The identifier is
  listed under the term, once.\<close>

fun addTerm :: "string \<Rightarrow> string \<Rightarrow> (string \<times> string list) list \<Rightarrow> (string \<times> string list) list" where
  "addTerm i t [] = [(t, [i])]"
| "addTerm i t ((k, ids) # rest) =
     (if k = t then (k, if i \<in> set ids then ids else ids @ [i]) # rest
      else (k, ids) # addTerm i t rest)"

text \<open>Modelled from the spec: the library's storage of auxiliary fields is missing; they are
  "stored, not indexed, and returned verbatim with each match".\<close>

definition store :: "document \<Rightarrow> storedFields" where
  "store d = \<lparr>s_img = d_img d, s_metadata = d_metadata d, s_name = d_name d, s_type = d_type d\<rparr>"

text \<open>Modelled from the spec: the library's \<^verbatim>\<open>add\<close> is missing. "Building with a record
  whose identifier collides with one already present is a caller error (duplicate-key) and
  must be signaled, not silently overwritten"; otherwise the record is stored and the terms
  of its name are indexed.\<close>

definition ms_add :: "document \<Rightarrow> miniSearch \<Rightarrow> error + miniSearch" where
  "ms_add d ms =
     (if d_id d \<in> set (map fst (ms_stored ms)) then Inl (DuplicateID (d_id d))
      else Inr (ms\<lparr>ms_stored := ms_stored ms @ [(d_id d, store d)],
                   ms_index := fold (addTerm (d_id d)) (processTerms (ms_options ms) (d_name d))
                                 (ms_index ms)\<rparr>))"

text \<open>Modelled from the spec: the library's \<^verbatim>\<open>addAll\<close> is missing; bulk insertion adds the
  records in order and stops at the first failure.\<close>

fun addAll :: "document list \<Rightarrow> miniSearch \<Rightarrow> error + miniSearch" where
  "addAll [] ms = Inr ms"
| "addAll (d # ds) ms = (case ms_add d ms of Inl e \<Rightarrow> Inl e | Inr ms' \<Rightarrow> addAll ds ms')"

text \<open>Modelled from the spec: the library's lookup by identifier is missing; each record is
  "retrievable by its own identifier".\<close>

definition getStoredFields :: "miniSearch \<Rightarrow> string \<Rightarrow> storedFields option" where
  "getStoredFields ms i = map_of (ms_stored ms) i"

text \<open>Modelled from the spec: the library's term matching is missing. "Each term matches by
  prefix: a term matches any indexed token that starts with it"; without the prefix option
  only the term itself matches.\<close>

definition termMatches :: "options \<Rightarrow> string \<Rightarrow> string \<Rightarrow> bool" where
  "termMatches opts q t = (q = t \<or> (opt_prefix opts \<and> prefix q t))"

text \<open>Modelled from the spec: the library's lookup of one query term is missing; it yields
  the identifiers listed under the indexed terms the query term matches.\<close>

definition executeQuerySpec :: "miniSearch \<Rightarrow> string \<Rightarrow> string list" where
  "executeQuerySpec ms q =
     concat (map snd (filter (\<lambda>kv. termMatches (ms_options ms) q (fst kv)) (ms_index ms)))"

text \<open>Modelled from the spec: the library's combination of the terms' results is missing.
  With AND "a record matches only if all terms match"; a query without terms has no
  results.\<close>

fun combineResults :: "combinator \<Rightarrow> string list list \<Rightarrow> string list" where
  "combineResults c [] = []"
| "combineResults AND (r # rs) = fold (\<lambda>r' acc. filter (\<lambda>i. i \<in> set r') acc) rs r"
| "combineResults OR (r # rs) = concat (r # rs)"

text \<open>Modelled from the spec: the library's result record is missing; a match carries the
  identifier and the stored fields.\<close>

definition toResult :: "string \<times> storedFields \<Rightarrow> searchResult" where
  "toResult kv =
     \<lparr>r_id = fst kv, r_img = s_img (snd kv), r_metadata = s_metadata (snd kv),
      r_name = s_name (snd kv), r_type = s_type (snd kv)\<rparr>"

text \<open>Modelled from the spec: the library's \<^verbatim>\<open>search\<close> is missing. The query is split into
  terms by the same pipeline as the names, the terms' results are combined, and the stored
  records of the remaining identifiers are returned. The library ranks the matches by a
  floating-point relevance score; the score and the ranking are not modelled, the list is
  in insertion order and stands for the set of matches only.\<close>

definition search :: "miniSearch \<Rightarrow> string \<Rightarrow> searchResult list" where
  "search ms query =
     (let terms = processTerms (ms_options ms) query;
          ids = combineResults (opt_combineWith (ms_options ms)) (map (executeQuerySpec ms) terms)
      in map toResult (filter (\<lambda>kv. fst kv \<in> set ids) (ms_stored ms)))"

section \<open>The directory: constructor and \<^verbatim>\<open>#compileSearchIndex\<close>\<close>

text \<open>\<^verbatim>\<open>processTerm: (t) => (t.length > 1 ? t.toLocaleLowerCase(game.i18n.lang) : null)\<close>\<close>

definition processTerm :: "game \<Rightarrow> string \<Rightarrow> string option" where
  "processTerm g t = (if length t > 1 then Some (toLocaleLowerCase g t) else None)"

definition searchEngineOptions :: "game \<Rightarrow> options" where
  "searchEngineOptions g =
     \<lparr>opt_processTerm = processTerm g, opt_tokenize = tokenize g,
      opt_combineWith = AND, opt_prefix = True\<rparr>"

text \<open>The filter of \<^verbatim>\<open>#compileSearchIndex\<close>.\<close>

definition eligible :: "game \<Rightarrow> pack \<Rightarrow> bool" where
  "eligible g p =
     (length (index p) > 0 \<and> documentName p \<noteq> ''JournalEntry'' \<and> (isGM g \<or> \<not> is_private p))"

definition withMetadata :: "pack \<Rightarrow> indexEntry \<Rightarrow> document" where
  "withMetadata p i =
     \<lparr>d_id = e_id i, d_name = e_name i, d_img = e_img i, d_type = e_type i,
      d_metadata = metadata p\<rparr>"

fun addPacks :: "pack list \<Rightarrow> miniSearch \<Rightarrow> error + miniSearch" where
  "addPacks [] ms = Inr ms"
| "addPacks (p # ps) ms =
     (case addAll (map (withMetadata p) (index p)) ms of
        Inl e \<Rightarrow> Inl e
      | Inr ms' \<Rightarrow> addPacks ps ms')"

definition compileSearchIndex :: "game \<Rightarrow> miniSearch \<Rightarrow> error + miniSearch" where
  "compileSearchIndex g ms = addPacks (filter (eligible g) (packs g)) ms"

text \<open>The constructor: the value of \<^verbatim>\<open>this.searchEngine\<close>, or the exception that escapes.\<close>

definition constructor :: "game \<Rightarrow> error + miniSearch" where
  "constructor g = compileSearchIndex g (newMiniSearch (searchEngineOptions g))"

section \<open>\<^verbatim>\<open>_onSearchFilter\<close>\<close>

text \<open>
  The part of the document the method reads and writes. A pack row is a
  \<^verbatim>\<open>li.compendium-pack\<close> with its \<^verbatim>\<open>dataset.collection\<close>, its \<^verbatim>\<open>style.display\<close> and the
  number of drag-drop handlers bound to it. A type list is a \<^verbatim>\<open>li.compendium-type\<close> with
  its \<^verbatim>\<open>dataset.type\<close> and the children of its \<^verbatim>\<open>ol.document-matches\<close> (\<open>None\<close> when it
  has no such list). When the directory has no root element both lists are empty.
\<close>

record packRow =
  row_collection :: "string option"
  display :: string
  binds :: nat

text \<open>A rendered match row: \<^verbatim>\<open>dataset.uuid\<close>, the thumbnail's \<^verbatim>\<open>src\<close> when it was set,
  the anchor's and the span's text.\<close>

record matchLi =
  li_uuid :: string
  li_thumbnail :: "string option"
  li_anchor :: string
  li_details :: string

record typeList =
  tl_type :: "string option"
  documentMatches :: "matchLi list option"

text \<open>
  The first element child of the template's content, with what \<^verbatim>\<open>querySelector\<close> finds in
  it; the template \<^verbatim>\<open>#compendium-search-match\<close> itself.
\<close>

record liTemplate =
  has_img :: bool
  has_a :: bool
  has_span :: bool

record template =
  firstElementChild :: "liTemplate option"

record dom =
  packRows :: "packRow list"
  typeLists :: "typeList list"
  matchTemplate :: "template option"

definition matchesQuery :: "game \<Rightarrow> string \<Rightarrow> pack \<Rightarrow> bool" where
  "matchesQuery g query p =
     sublist (toLocaleLowerCase g query) (toLocaleLowerCase g (title p))"

definition filteredPacks :: "game \<Rightarrow> string \<Rightarrow> pack list" where
  "filteredPacks g query =
     (if length query > 0 then filter (matchesQuery g query) (packs g) else packs g)"

text \<open>\<^verbatim>\<open>packRow.style.display = "list-item"\<close> and the binding of every drag-drop handler, on
  the row that \<^verbatim>\<open>packRows.find\<close> returns (the first one with the pack's collection id).\<close>

fun showRow :: "string \<Rightarrow> nat \<Rightarrow> packRow list \<Rightarrow> packRow list" where
  "showRow c n [] = []"
| "showRow c n (r # rs) =
     (if row_collection r = Some c
      then r\<lparr>display := ''list-item'', binds := binds r + n\<rparr> # rs
      else r # showRow c n rs)"

text \<open>The body of the loop over \<^verbatim>\<open>filteredPacks\<close>, and the loop.\<close>

definition showPack :: "game \<Rightarrow> pack \<Rightarrow> packRow list \<Rightarrow> packRow list" where
  "showPack g p rows =
     (case find (\<lambda>r. row_collection r = Some (collection p)) rows of
        None \<Rightarrow> rows
      | Some packRow \<Rightarrow>
          if is_private p \<and> \<not> isGM g then rows
          else showRow (collection p) (dragDropCount g) rows)"

fun showPacks :: "game \<Rightarrow> pack list \<Rightarrow> packRow list \<Rightarrow> packRow list" where
  "showPacks g [] rows = rows"
| "showPacks g (p # ps) rows = showPacks g ps (showPack g p rows)"

text \<open>\<^verbatim>\<open>!filteredPacks.includes(game.packs.get(r.dataset.collection ?? "")!)\<close>\<close>

definition toHide :: "game \<Rightarrow> pack list \<Rightarrow> packRow \<Rightarrow> bool" where
  "toHide g fps r =
     (case packs_get g (case row_collection r of None \<Rightarrow> [] | Some c \<Rightarrow> c) of
        None \<Rightarrow> True
      | Some p \<Rightarrow> p \<notin> set fps)"

definition hideRows :: "game \<Rightarrow> string \<Rightarrow> pack list \<Rightarrow> packRow list \<Rightarrow> packRow list" where
  "hideRows g query fps rows =
     (if length query > 0
      then map (\<lambda>r. if toHide g fps r then r\<lparr>display := ''none''\<rparr> else r) rows
      else rows)"

definition docMatches :: "miniSearch \<Rightarrow> string \<Rightarrow> searchResult list" where
  "docMatches searchEngine query = (if length query > 0 then search searchEngine query else [])"

definition systemType :: "game \<Rightarrow> searchResult \<Rightarrow> string option" where
  "systemType g m =
     (if md_type (r_metadata m) = ''Actor''
      then Some (localize g (''ACTOR.Type'' @ titleCase g (r_type m)))
      else if md_type (r_metadata m) = ''Item''
      then Some (localize g (''ITEM.Type'' @ titleCase g (r_type m)))
      else None)"

definition detailsText :: "game \<Rightarrow> searchResult \<Rightarrow> string" where
  "detailsText g m =
     (case systemType g m of
        None \<Rightarrow> ''('' @ md_label (r_metadata m) @ '')''
      | Some st \<Rightarrow>
          if st = [] then ''('' @ md_label (r_metadata m) @ '')''
          else st @ '' ('' @ md_label (r_metadata m) @ '')'')"

text \<open>
  The body of \<^verbatim>\<open>typedMatches.map\<close>. The non-null assertions of the source
  (\<^verbatim>\<open>firstElementChild!\<close>, \<^verbatim>\<open>querySelector("img")!\<close>, \<^verbatim>\<open>querySelector("a")!\<close>,
  \<^verbatim>\<open>querySelector("span")!\<close>) are unchecked at run time: a missing element is a
  \<^verbatim>\<open>TypeError\<close> at its first use.
\<close>

definition makeLi :: "game \<Rightarrow> template \<Rightarrow> searchResult \<Rightarrow> error + matchLi" where
  "makeLi g tmpl m =
     (case firstElementChild tmpl of
        None \<Rightarrow> Inl TypeError
      | Some li \<Rightarrow>
          if r_img m \<noteq> None \<and> \<not> has_img li then Inl TypeError
          else if \<not> has_a li then Inl TypeError
          else if \<not> has_span li then Inl TypeError
          else Inr \<lparr>li_uuid = ''Compendium.'' @ md_id (r_metadata m) @ ''.'' @ r_id m,
                    li_thumbnail = r_img m,
                    li_anchor = r_name m,
                    li_details = detailsText g m\<rparr>)"

fun makeLis :: "game \<Rightarrow> template \<Rightarrow> searchResult list \<Rightarrow> error + matchLi list" where
  "makeLis g tmpl [] = Inr []"
| "makeLis g tmpl (m # ms) =
     (case makeLi g tmpl m of
        Inl e \<Rightarrow> Inl e
      | Inr li \<Rightarrow> (case makeLis g tmpl ms of Inl e \<Rightarrow> Inl e | Inr lis \<Rightarrow> Inr (li # lis)))"

definition typedMatches :: "searchResult list \<Rightarrow> typeList \<Rightarrow> searchResult list" where
  "typedMatches dms typeLi = filter (\<lambda>m. Some (md_type (r_metadata m)) = tl_type typeLi) dms"

text \<open>The loop over the type lists; an exception leaves the remaining lists untouched.\<close>

fun renderTypeLists ::
  "game \<Rightarrow> template \<Rightarrow> searchResult list \<Rightarrow> typeList list \<Rightarrow> typeList list \<times> error option" where
  "renderTypeLists g tmpl dms [] = ([], None)"
| "renderTypeLists g tmpl dms (typeLi # rest) =
     (case makeLis g tmpl (typedMatches dms typeLi) of
        Inl e \<Rightarrow> (typeLi # rest, Some e)
      | Inr listElements \<Rightarrow>
          (let typeLi' = (case documentMatches typeLi of
                        None \<Rightarrow> typeLi
                      | Some old \<Rightarrow> typeLi\<lparr>documentMatches := Some listElements\<rparr>);
               more = renderTypeLists g tmpl dms rest
           in (typeLi' # fst more, snd more)))"

text \<open>
  \<^verbatim>\<open>_onSearchFilter(_event, query)\<close>: the document after the call and the exception thrown,
  if any. The rows are updated before the document pass, so they keep their new state
  when the call throws.
\<close>

definition onSearchFilter :: "game \<Rightarrow> miniSearch \<Rightarrow> string \<Rightarrow> dom \<Rightarrow> dom \<times> error option" where
  "onSearchFilter g searchEngine query d =
     (let fps = filteredPacks g query;
          rows = hideRows g query fps (showPacks g fps (packRows d));
          d1 = d\<lparr>packRows := rows\<rparr>;
          dms = docMatches searchEngine query
      in if length dms = 0 then (d1, None)
         else (case matchTemplate d of
                 None \<Rightarrow> (d1, Some (ErrorPF2e ''Match template not found''))
               | Some tmpl \<Rightarrow>
                   (let res = renderTypeLists g tmpl dms (typeLists d)
                    in (d1\<lparr>typeLists := fst res\<rparr>, snd res))))"

section \<open>\<^verbatim>\<open>_onDragStart\<close>\<close>

text \<open>\<^verbatim>\<open>event.currentTarget.dataset\<close>\<close>

record dragElement =
  ds_collection :: "string option"
  ds_documentId :: "string option"

text \<open>The preview \<^verbatim>\<open>div#pack-search-drag-preview\<close>: the \<^verbatim>\<open>src\<close> of its image when set,
  and the text of its title.\<close>

record dragPreview =
  preview_img :: "string option"
  preview_title :: string

text \<open>The object passed through \<^verbatim>\<open>JSON.stringify\<close> to \<^verbatim>\<open>setData("text/plain", ...)\<close>.\<close>

record dragData =
  dd_type :: string
  dd_uuid :: string

text \<open>
  What a drag start can change: the preview element present in the document, the drag
  image and the data of the event's \<^verbatim>\<open>dataTransfer\<close>.
\<close>

record dragState =
  preview :: "dragPreview option"
  dragImage :: "dragPreview option"
  transferData :: "dragData option"

text \<open>JavaScript truthiness of an optional string: present and not empty.\<close>

definition truthy :: "string option \<Rightarrow> bool" where
  "truthy s = (case s of None \<Rightarrow> False | Some v \<Rightarrow> v \<noteq> [])"

definition onDragStart :: "game \<Rightarrow> dragElement \<Rightarrow> dragState \<Rightarrow> error + dragState" where
  "onDragStart g dragElement st =
     (if \<not> (truthy (ds_collection dragElement) \<and> truthy (ds_documentId dragElement)) then Inr st
      else
        (let collectionId = the (ds_collection dragElement);
             documentId = the (ds_documentId dragElement)
         in case packs_get g collectionId of
              None \<Rightarrow> Inl (StrictNotFound collectionId)
            | Some pack \<Rightarrow>
                (case index_get pack documentId of
                   None \<Rightarrow> Inl (StrictNotFound documentId)
                 | Some indexEntry \<Rightarrow>
                     (let dragPreview =
                            \<lparr>preview_img = (if truthy (e_img indexEntry) then e_img indexEntry else None),
                             preview_title = e_name indexEntry\<rparr>
                      in Inr \<lparr>preview = Some dragPreview,
                              dragImage = Some dragPreview,
                              transferData =
                                Some \<lparr>dd_type = documentName pack,
                                      dd_uuid = ''Compendium.'' @ collection pack @ ''.'' @ documentId\<rparr>\<rparr>))))"

section \<open>A concrete host for the scenarios\<close>

text \<open>
  Case folding of a code unit below 256 as \<^verbatim>\<open>toLocaleLowerCase("en")\<close> folds it: the
  capitals \<^verbatim>\<open>A\<close> to \<^verbatim>\<open>Z\<close> and the accented capitals 192 to 222 (but the
  multiplication sign 215) move up by 32, every other code unit stays.
\<close>

definition lowerCodeUnit :: "char \<Rightarrow> char" where
  "lowerCodeUnit c =
     (let n = (of_char c :: nat)
      in if (65 \<le> n \<and> n \<le> 90) \<or> (192 \<le> n \<and> n \<le> 222 \<and> n \<noteq> 215) then char_of (n + 32)
         else c)"

definition asciiUpper :: "char \<Rightarrow> char" where
  "asciiUpper c =
     (let n = (of_char c :: nat) in if 97 \<le> n \<and> n \<le> 122 then char_of (n - 32) else c)"

text \<open>Title case of ASCII words: lower case, the first letter of each word in upper case.\<close>

fun titleCaseFrom :: "bool \<Rightarrow> string \<Rightarrow> string" where
  "titleCaseFrom start [] = []"
| "titleCaseFrom start (c # cs) =
     (if start then asciiUpper (lowerCodeUnit c) else lowerCodeUnit c)
       # titleCaseFrom (c = CHR '' '') cs"

text \<open>
  The library's default tokenizer splits at runs of spaces and punctuation. Among the code
  units below 256 the separators are \<^verbatim>\<open>\n \r\<close>, space,
  \<^verbatim>\<open>! " # % & ' ( ) * , - . / : ; ? @ [ \ ] _ { }\<close>, the no-break space 160 and the
  punctuation marks 161, 167, 171, 182, 183, 187 and 191.
\<close>

definition spaceOrPunctuation :: "char \<Rightarrow> bool" where
  "spaceOrPunctuation c =
     (let n = (of_char c :: nat)
      in n = 10 \<or> n = 13 \<or> (32 \<le> n \<and> n \<le> 35) \<or> (37 \<le> n \<and> n \<le> 42) \<or> (44 \<le> n \<and> n \<le> 47)
         \<or> n = 58 \<or> n = 59 \<or> n = 63 \<or> n = 64 \<or> (91 \<le> n \<and> n \<le> 93) \<or> n = 95
         \<or> n = 123 \<or> n = 125
         \<or> n = 160 \<or> n = 161 \<or> n = 167 \<or> n = 171 \<or> n = 182 \<or> n = 183 \<or> n = 187
         \<or> n = 191)"

text \<open>\<^verbatim>\<open>String.prototype.split\<close> at a separator run: an empty piece appears where the
  string starts or ends with a separator.\<close>

function splitOn :: "(char \<Rightarrow> bool) \<Rightarrow> string \<Rightarrow> string \<Rightarrow> string list" where
  "splitOn P cur [] = [cur]"
| "splitOn P cur (c # cs) =
     (if P c then cur # splitOn P [] (dropWhile P cs) else splitOn P (cur @ [c]) cs)"
  by pat_completeness auto
termination
  by (relation "measure (\<lambda>(P, cur, cs). length cs)")
     (auto simp: length_dropWhile_le le_imp_less_Suc)

definition defaultTokenize :: "string \<Rightarrow> string list" where
  "defaultTokenize s = splitOn spaceOrPunctuation [] s"

definition englishGame :: "pack list \<Rightarrow> bool \<Rightarrow> game" where
  "englishGame ps gm =
     \<lparr>packs = ps, isGM = gm, toLocaleLowerCase = map lowerCodeUnit, tokenize = defaultTokenize,
      localize = (\<lambda>k. k), titleCase = titleCaseFrom True, dragDropCount = 1\<rparr>"

text \<open>
  The scenario of spec section 8: one public pack \<^verbatim>\<open>p1\<close> titled "Bestiary" of type
  "Actor" with the entry \<^verbatim>\<open>e1\<close> named "Goblin Warrior", seen by a player; its row and the
  "Actor" type list are rendered, the row visible, and the match template is complete.
\<close>

definition bestiary :: pack where
  "bestiary =
     \<lparr>collection = ''p1'', title = ''Bestiary'', documentName = ''Actor'', is_private = False,
      index = [\<lparr>e_id = ''e1'', e_name = ''Goblin Warrior'', e_img = None, e_type = ''npc''\<rparr>],
      metadata = \<lparr>md_id = ''p1'', md_label = ''Bestiary'', md_type = ''Actor''\<rparr>\<rparr>"

definition scenarioGame :: game where
  "scenarioGame = englishGame [bestiary] False"

definition scenarioEngine :: miniSearch where
  "scenarioEngine = projr (constructor scenarioGame)"

definition completeTemplate :: template where
  "completeTemplate = \<lparr>firstElementChild = Some \<lparr>has_img = True, has_a = True, has_span = True\<rparr>\<rparr>"

definition scenarioDom :: dom where
  "scenarioDom =
     \<lparr>packRows = [\<lparr>row_collection = Some ''p1'', display = ''list-item'', binds = 0\<rparr>],
      typeLists = [\<lparr>tl_type = Some ''Actor'', documentMatches = Some []\<rparr>],
      matchTemplate = Some completeTemplate\<rparr>"

text \<open>A private pack beside the public one, for the privacy scenario.\<close>

definition secrets :: pack where
  "secrets =
     \<lparr>collection = ''p2'', title = ''Goblin Secrets'', documentName = ''Actor'', is_private = True,
      index = [\<lparr>e_id = ''e2'', e_name = ''Goblin King'', e_img = None, e_type = ''npc''\<rparr>],
      metadata = \<lparr>md_id = ''p2'', md_label = ''Goblin Secrets'', md_type = ''Actor''\<rparr>\<rparr>"

definition privacyGame :: game where
  "privacyGame = englishGame [bestiary, secrets] False"

definition privacyDom :: dom where
  "privacyDom =
     \<lparr>packRows = [\<lparr>row_collection = Some ''p1'', display = ''none'', binds = 0\<rparr>,
                  \<lparr>row_collection = Some ''p2'', display = ''none'', binds = 0\<rparr>],
      typeLists = [\<lparr>tl_type = Some ''Actor'', documentMatches = Some []\<rparr>],
      matchTemplate = Some completeTemplate\<rparr>"

text \<open>The drag scenario: entry \<^verbatim>\<open>e1\<close> of a pack whose collection id is
  \<^verbatim>\<open>world.bestiary\<close>.\<close>

definition worldBestiary :: pack where
  "worldBestiary = bestiary\<lparr>collection := ''world.bestiary''\<rparr>"

definition noDrag :: dragState where
  "noDrag = \<lparr>preview = None, dragImage = None, transferData = None\<rparr>"

section \<open>Derived notions used in the statements\<close>

text \<open>The documents \<^verbatim>\<open>#compileSearchIndex\<close> hands to the engine, in order: for each pack
  that passes the filter, every entry of its index with the pack's metadata attached.\<close>

definition indexedDocuments :: "game \<Rightarrow> document list" where
  "indexedDocuments g =
     concat (map (\<lambda>p. map (withMetadata p) (index p)) (filter (eligible g) (packs g)))"

text \<open>Soundness of the inverted index: an identifier listed under a term belongs to a
  stored record whose name has that term.\<close>

definition index_sound :: "miniSearch \<Rightarrow> bool" where
  "index_sound ms =
     (\<forall>k ids i. (k, ids) \<in> set (ms_index ms) \<and> i \<in> set ids \<longrightarrow>
        (\<exists>s. (i, s) \<in> set (ms_stored ms) \<and> k \<in> set (processTerms (ms_options ms) (s_name s))))"

definition privacyEngine :: miniSearch where
  "privacyEngine = projr (constructor privacyGame)"

text \<open>Two public packs that both hold an entry with the id \<^verbatim>\<open>e1\<close>.\<close>

definition collidingGame :: game where
  "collidingGame = englishGame [bestiary, bestiary\<lparr>collection := ''p3''\<rparr>] False"

text \<open>No two rows carry the same \<^verbatim>\<open>data-collection\<close>: the directory renders one row per
  pack.\<close>

definition uniqueRows :: "packRow list \<Rightarrow> bool" where
  "uniqueRows rows = distinct (List.map_filter row_collection rows)"

text \<open>The viewer may see the pack: the negation of the test that skips a row in the loop.\<close>

definition permitted :: "game \<Rightarrow> pack \<Rightarrow> bool" where
  "permitted g p = (\<not> (is_private p \<and> \<not> isGM g))"

text \<open>A template whose first element child has the image, the anchor and the span a match
  row is filled through.\<close>

definition complete :: "template \<Rightarrow> bool" where
  "complete tmpl =
     (case firstElementChild tmpl of None \<Rightarrow> False
      | Some li \<Rightarrow> has_img li \<and> has_a li \<and> has_span li)"

text \<open>The scenario's document without the match template.\<close>

definition noTemplateDom :: dom where
  "noTemplateDom = scenarioDom\<lparr>matchTemplate := None\<rparr>"

section \<open>Basic facts\<close>

lemma packs_get_collection: "packs_get g c = Some p \<Longrightarrow> collection p = c \<and> p \<in> set (packs g)"
  unfolding packs_get_def by (auto simp: find_Some_iff)

lemma processTerms_searchEngineOptions:
  "processTerms (searchEngineOptions g) s =
     map (toLocaleLowerCase g) (filter (\<lambda>t. 2 \<le> length t) (tokenize g s))"
proof -
  have "List.map_filter (processTerm g) ts =
          map (toLocaleLowerCase g) (filter (\<lambda>t. 2 \<le> length t) ts)" for ts
    by (induction ts) (auto simp: processTerm_def)
  then show ?thesis
    by (simp add: processTerms_def searchEngineOptions_def)
qed

section \<open>The search engine: what an insertion and a query preserve\<close>

lemma addAll_append:
  "addAll (xs @ ys) ms = (case addAll xs ms of Inl e \<Rightarrow> Inl e | Inr ms' \<Rightarrow> addAll ys ms')"
  by (induction xs arbitrary: ms) (auto split: sum.splits)

lemma addPacks_addAll:
  "addPacks ps ms = addAll (concat (map (\<lambda>p. map (withMetadata p) (index p)) ps)) ms"
  by (induction ps arbitrary: ms) (auto simp: addAll_append split: sum.splits)

lemma constructor_addAll:
  "constructor g = addAll (indexedDocuments g) (newMiniSearch (searchEngineOptions g))"
  by (simp add: constructor_def compileSearchIndex_def addPacks_addAll indexedDocuments_def)

lemma addAll_Inr_stored:
  "addAll ds ms = Inr ms' \<Longrightarrow>
     ms_stored ms' = ms_stored ms @ map (\<lambda>d. (d_id d, store d)) ds \<and> ms_options ms' = ms_options ms"
proof (induction ds arbitrary: ms)
  case Nil
  then show ?case by simp
next
  case (Cons d ds)
  from Cons.prems obtain ms1 where a: "ms_add d ms = Inr ms1" and b: "addAll ds ms1 = Inr ms'"
    by (auto split: sum.splits)
  from a have "ms_stored ms1 = ms_stored ms @ [(d_id d, store d)]" "ms_options ms1 = ms_options ms"
    by (auto simp: ms_add_def split: if_splits)
  with Cons.IH [OF b] show ?case by simp
qed

lemma addAll_succeeds:
  "distinct (map d_id ds) \<Longrightarrow> set (map d_id ds) \<inter> fst ` set (ms_stored ms) = {} \<Longrightarrow>
     \<exists>ms'. addAll ds ms = Inr ms'"
proof (induction ds arbitrary: ms)
  case Nil
  then show ?case by simp
next
  case (Cons d ds)
  let ?ms1 = "ms\<lparr>ms_stored := ms_stored ms @ [(d_id d, store d)],
                 ms_index := fold (addTerm (d_id d)) (processTerms (ms_options ms) (d_name d))
                               (ms_index ms)\<rparr>"
  from Cons.prems have a: "ms_add d ms = Inr ?ms1"
    by (auto simp: ms_add_def)
  from Cons.prems have "distinct (map d_id ds)"
    and "set (map d_id ds) \<inter> fst ` set (ms_stored ?ms1) = {}"
    by auto
  from Cons.IH [OF this] a show ?case by simp
qed

lemma addAll_fails:
  "\<not> (distinct (map d_id ds) \<and> set (map d_id ds) \<inter> fst ` set (ms_stored ms) = {}) \<Longrightarrow>
     \<exists>i. addAll ds ms = Inl (DuplicateID i) \<and> i \<in> set (map d_id ds)"
proof (induction ds arbitrary: ms)
  case Nil
  then show ?case by simp
next
  case (Cons d ds)
  show ?case
  proof (cases "d_id d \<in> set (map fst (ms_stored ms))")
    case True
    then show ?thesis by (simp add: ms_add_def)
  next
    case False
    let ?ms1 = "ms\<lparr>ms_stored := ms_stored ms @ [(d_id d, store d)],
                   ms_index := fold (addTerm (d_id d)) (processTerms (ms_options ms) (d_name d))
                                 (ms_index ms)\<rparr>"
    from False have a: "ms_add d ms = Inr ?ms1"
      by (simp add: ms_add_def)
    from Cons.prems False
    have "\<not> (distinct (map d_id ds) \<and> set (map d_id ds) \<inter> fst ` set (ms_stored ?ms1) = {})"
      by auto
    from Cons.IH [OF this] a show ?thesis by auto
  qed
qed

lemma addTerm_sound:
  "(k, ids) \<in> set (addTerm i t idx) \<Longrightarrow> j \<in> set ids \<Longrightarrow>
     (\<exists>ids0. (k, ids0) \<in> set idx \<and> j \<in> set ids0) \<or> (j = i \<and> k = t)"
proof (induction i t idx rule: addTerm.induct)
  case (1 i t)
  then show ?case by simp
next
  case (2 i t k' ids' rest)
  show ?case
  proof (cases "k' = t")
    case True
    with "2.prems" consider "k = t" "ids = (if i \<in> set ids' then ids' else ids' @ [i])"
      | "(k, ids) \<in> set rest"
      by auto
    then show ?thesis
    proof cases
      case 1
      with "2.prems"(2) True have "j \<in> set ids' \<or> j = i"
        by (auto split: if_splits)
      with 1 True show ?thesis by auto
    next
      case 2
      with "2.prems"(2) show ?thesis by auto
    qed
  next
    case False
    with "2.prems" consider "(k, ids) = (k', ids')" | "(k, ids) \<in> set (addTerm i t rest)"
      by auto
    then show ?thesis
    proof cases
      case 1
      with "2.prems"(2) show ?thesis by auto
    next
      case 2
      from "2.IH" [OF False 2 "2.prems"(2)] show ?thesis by auto
    qed
  qed
qed

lemma fold_addTerm_sound:
  "(k, ids) \<in> set (fold (addTerm i) ts idx) \<Longrightarrow> j \<in> set ids \<Longrightarrow>
     (\<exists>ids0. (k, ids0) \<in> set idx \<and> j \<in> set ids0) \<or> (j = i \<and> k \<in> set ts)"
proof (induction ts arbitrary: idx)
  case Nil
  then show ?case by auto
next
  case (Cons t ts)
  from Cons.IH [of "addTerm i t idx"] Cons.prems
  have "(\<exists>ids0. (k, ids0) \<in> set (addTerm i t idx) \<and> j \<in> set ids0) \<or> (j = i \<and> k \<in> set ts)"
    by simp
  then show ?case
    using addTerm_sound [of k _ i t idx j] by auto
qed

lemma ms_add_sound:
  assumes "ms_add d ms = Inr ms'" and "index_sound ms"
  shows "index_sound ms'"
proof -
  from assms(1) have st: "ms_stored ms' = ms_stored ms @ [(d_id d, store d)]"
    and ix: "ms_index ms' = fold (addTerm (d_id d)) (processTerms (ms_options ms) (d_name d)) (ms_index ms)"
    and op: "ms_options ms' = ms_options ms"
    by (auto simp: ms_add_def split: if_splits)
  show ?thesis
    unfolding index_sound_def
  proof (intro allI impI)
    fix k ids i
    assume h: "(k, ids) \<in> set (ms_index ms') \<and> i \<in> set ids"
    from fold_addTerm_sound [of k ids "d_id d" _ "ms_index ms" i] h ix
    consider (old) ids0 where "(k, ids0) \<in> set (ms_index ms)" "i \<in> set ids0"
      | (new) "i = d_id d" "k \<in> set (processTerms (ms_options ms) (d_name d))"
      by auto
    then show "\<exists>s. (i, s) \<in> set (ms_stored ms') \<and> k \<in> set (processTerms (ms_options ms') (s_name s))"
    proof cases
      case old
      with assms(2) obtain s where "(i, s) \<in> set (ms_stored ms)"
        "k \<in> set (processTerms (ms_options ms) (s_name s))"
        unfolding index_sound_def by blast
      then show ?thesis using st op by auto
    next
      case new
      then have "(i, store d) \<in> set (ms_stored ms')"
        "k \<in> set (processTerms (ms_options ms') (s_name (store d)))"
        using st op by (auto simp: store_def)
      then show ?thesis by blast
    qed
  qed
qed

lemma addAll_sound:
  "addAll ds ms = Inr ms' \<Longrightarrow> index_sound ms \<Longrightarrow> index_sound ms'"
proof (induction ds arbitrary: ms)
  case Nil
  then show ?case by simp
next
  case (Cons d ds)
  from Cons.prems obtain ms1 where a: "ms_add d ms = Inr ms1" and b: "addAll ds ms1 = Inr ms'"
    by (auto split: sum.splits)
  from Cons.IH [OF b ms_add_sound [OF a Cons.prems(2)]] show ?case .
qed

lemma addAll_distinct:
  "addAll ds ms = Inr ms' \<Longrightarrow> distinct (map fst (ms_stored ms)) \<Longrightarrow>
     distinct (map fst (ms_stored ms'))"
proof (induction ds arbitrary: ms)
  case Nil
  then show ?case by simp
next
  case (Cons d ds)
  from Cons.prems obtain ms1 where a: "ms_add d ms = Inr ms1" and b: "addAll ds ms1 = Inr ms'"
    by (auto split: sum.splits)
  from a Cons.prems(2) have "distinct (map fst (ms_stored ms1))"
    by (auto simp: ms_add_def split: if_splits)
  from Cons.IH [OF b this] show ?case .
qed

lemma constructor_invariants:
  assumes "constructor g = Inr eng"
  shows "ms_options eng = searchEngineOptions g"
    and "ms_stored eng = map (\<lambda>d. (d_id d, store d)) (indexedDocuments g)"
    and "distinct (map fst (ms_stored eng))"
    and "index_sound eng"
proof -
  let ?new = "newMiniSearch (searchEngineOptions g)"
  from assms have a: "addAll (indexedDocuments g) ?new = Inr eng"
    by (simp add: constructor_addAll)
  from addAll_Inr_stored [OF a]
  show "ms_options eng = searchEngineOptions g"
    and "ms_stored eng = map (\<lambda>d. (d_id d, store d)) (indexedDocuments g)"
    by (simp_all add: newMiniSearch_def)
  show "distinct (map fst (ms_stored eng))"
    using addAll_distinct [OF a] by (simp add: newMiniSearch_def)
  show "index_sound eng"
    using addAll_sound [OF a] by (simp add: newMiniSearch_def index_sound_def)
qed

lemma fold_filter_mem:
  "i \<in> set (fold (\<lambda>r' acc. filter (\<lambda>i. i \<in> set r') acc) rs acc) \<longleftrightarrow>
     i \<in> set acc \<and> (\<forall>r \<in> set rs. i \<in> set r)"
proof (induction rs arbitrary: acc)
  case Nil
  show ?case by simp
next
  case (Cons r rs)
  show ?case
    unfolding fold_simps Cons.IH by auto
qed

lemma combineResults_AND_mem:
  "i \<in> set (combineResults AND rs) \<longleftrightarrow> rs \<noteq> [] \<and> (\<forall>r \<in> set rs. i \<in> set r)"
proof (cases rs)
  case Nil
  then show ?thesis by simp
next
  case (Cons r rs')
  then show ?thesis
    by (simp add: fold_filter_mem)
qed

lemma executeQuerySpec_sound:
  "i \<in> set (executeQuerySpec ms q) \<Longrightarrow>
     \<exists>k ids. (k, ids) \<in> set (ms_index ms) \<and> i \<in> set ids \<and> termMatches (ms_options ms) q k"
  by (auto simp: executeQuerySpec_def)

lemma search_sound:
  assumes "m \<in> set (search ms query)"
    and "opt_combineWith (ms_options ms) = AND"
    and "distinct (map fst (ms_stored ms))" and "index_sound ms"
    and "q \<in> set (processTerms (ms_options ms) query)"
  shows "\<exists>k \<in> set (processTerms (ms_options ms) (r_name m)). termMatches (ms_options ms) q k"
proof -
  from assms(1,2) obtain i s where m: "m = toResult (i, s)" and st: "(i, s) \<in> set (ms_stored ms)"
    and i: "i \<in> set (combineResults AND (map (executeQuerySpec ms) (processTerms (ms_options ms) query)))"
    by (auto simp: search_def Let_def)
  from i assms(5) have "i \<in> set (executeQuerySpec ms q)"
    by (simp add: combineResults_AND_mem)
  from executeQuerySpec_sound [OF this] obtain k ids where
    k: "(k, ids) \<in> set (ms_index ms)" "i \<in> set ids" "termMatches (ms_options ms) q k"
    by blast
  with assms(4) obtain s' where s': "(i, s') \<in> set (ms_stored ms)"
    "k \<in> set (processTerms (ms_options ms) (s_name s'))"
    unfolding index_sound_def by blast
  from st s'(1) assms(3) have "s' = s"
    by (meson eq_key_imp_eq_value)
  with s'(2) m k(3) show ?thesis
    by (auto simp: toResult_def)
qed


lemma docMatches_subset: "m \<in> set (docMatches eng Q) \<Longrightarrow> m \<in> set (search eng Q) \<and> Q \<noteq> []"
  by (auto simp: docMatches_def split: if_splits)

lemma scenario_constructor: "constructor scenarioGame = Inr scenarioEngine"
proof -
  have "\<not> isl (constructor scenarioGame)" by code_simp
  then show ?thesis by (simp add: scenarioEngine_def)
qed

lemma privacy_constructor: "constructor privacyGame = Inr privacyEngine"
proof -
  have "\<not> isl (constructor privacyGame)" by code_simp
  then show ?thesis by (simp add: privacyEngine_def)
qed

lemma addTerm_keys: "fst ` set (addTerm i t idx) = insert t (fst ` set idx)"
  by (induction i t idx rule: addTerm.induct) auto

lemma fold_addTerm_keys: "fst ` set (fold (addTerm i) ts idx) = set ts \<union> fst ` set idx"
  by (induction ts arbitrary: idx) (auto simp: addTerm_keys)

lemma addAll_keys:
  "addAll ds ms = Inr ms' \<Longrightarrow>
     fst ` set (ms_index ms') =
       fst ` set (ms_index ms) \<union> (\<Union>d \<in> set ds. set (processTerms (ms_options ms) (d_name d)))"
proof (induction ds arbitrary: ms)
  case Nil
  then show ?case by simp
next
  case (Cons d ds)
  from Cons.prems obtain ms1 where a: "ms_add d ms = Inr ms1" and b: "addAll ds ms1 = Inr ms'"
    by (auto split: sum.splits)
  from a have ms1: "ms1 = ms\<lparr>ms_stored := ms_stored ms @ [(d_id d, store d)],
                 ms_index := fold (addTerm (d_id d)) (processTerms (ms_options ms) (d_name d))
                               (ms_index ms)\<rparr>"
    by (auto simp: ms_add_def split: if_splits)
  have "fst ` set (ms_index ms1) =
          set (processTerms (ms_options ms) (d_name d)) \<union> fst ` set (ms_index ms)"
    and "ms_options ms1 = ms_options ms"
    by (simp_all add: ms1 fold_addTerm_keys)
  with Cons.IH [OF b] show ?case by auto
qed

section \<open>The container pass: rows shown and hidden\<close>

lemma showRow_collection: "map row_collection (showRow c n rows) = map row_collection rows"
  by (induction rows) simp_all

lemma showRow_length: "length (showRow c n rows) = length rows"
  by (induction rows) simp_all


lemma showRow_nth_display:
  "i < length rows \<Longrightarrow>
     display (showRow c n rows ! i) = display (rows ! i)
     \<or> display (showRow c n rows ! i) = ''list-item''"
proof (induction rows arbitrary: i)
  case Nil
  then show ?case by simp
next
  case (Cons r rs)
  then show ?case by (cases i) simp_all
qed

lemma map_filter_mem:
  "i < length rows \<Longrightarrow> row_collection (rows ! i) = Some c \<Longrightarrow>
     c \<in> set (List.map_filter row_collection rows)"
proof (induction rows arbitrary: i)
  case Nil
  then show ?case by simp
next
  case (Cons r rs)
  then show ?case by (cases i) (simp_all split: option.splits)
qed

lemma uniqueRows_Cons: "uniqueRows (r # rs) \<Longrightarrow> uniqueRows rs"
  by (simp add: uniqueRows_def split: option.splits)

lemma showRow_nth_shown:
  "uniqueRows rows \<Longrightarrow> i < length rows \<Longrightarrow> row_collection (rows ! i) = Some c \<Longrightarrow>
     display (showRow c n rows ! i) = ''list-item''"
proof (induction rows arbitrary: i)
  case Nil
  then show ?case by simp
next
  case (Cons r rs)
  show ?case
  proof (cases "row_collection r = Some c")
    case True
    with Cons.prems(1) have notin: "c \<notin> set (List.map_filter row_collection rs)"
      by (simp add: uniqueRows_def)
    have "i = 0"
    proof (cases i)
      case 0
      then show ?thesis .
    next
      case (Suc j)
      with Cons.prems(2,3) have "j < length rs" "row_collection (rs ! j) = Some c"
        by simp_all
      from map_filter_mem [OF this] notin show ?thesis by simp
    qed
    with True show ?thesis by simp
  next
    case False
    with Cons.prems(3) obtain j where j: "i = Suc j" by (cases i) simp_all
    from Cons.IH [OF uniqueRows_Cons [OF Cons.prems(1)], of j] Cons.prems(2,3) j False
    show ?thesis by simp
  qed
qed

lemma showPack_collection: "map row_collection (showPack g p rows) = map row_collection rows"
  by (simp add: showPack_def showRow_collection split: option.splits)

lemma showPack_length: "length (showPack g p rows) = length rows"
  by (simp add: showPack_def showRow_length split: option.splits)

lemma showPack_nth_collection:
  assumes "i < length rows"
  shows "row_collection (showPack g p rows ! i) = row_collection (rows ! i)"
proof -
  from assms have "row_collection (showPack g p rows ! i) = map row_collection (showPack g p rows) ! i"
    by (simp add: showPack_length)
  also have "\<dots> = map row_collection rows ! i"
    by (simp only: showPack_collection)
  also from assms have "\<dots> = row_collection (rows ! i)"
    by simp
  finally show ?thesis .
qed

lemma uniqueRows_showPack: "uniqueRows rows \<Longrightarrow> uniqueRows (showPack g p rows)"
proof -
  have "List.map_filter f xs = List.map_filter (\<lambda>x. x) (map f xs)" for f :: "packRow \<Rightarrow> string option" and xs
    by (induction xs) (simp_all split: option.splits)
  from this [of row_collection] show "uniqueRows rows \<Longrightarrow> uniqueRows (showPack g p rows)"
    unfolding uniqueRows_def by (simp only: showPack_collection)
qed


lemma showPack_nth_display:
  "i < length rows \<Longrightarrow>
     display (showPack g p rows ! i) = display (rows ! i)
     \<or> display (showPack g p rows ! i) = ''list-item''"
  using showRow_nth_display [of i rows "collection p" "dragDropCount g"]
  by (simp add: showPack_def split: option.splits)

lemma showPack_nth_shown:
  assumes "uniqueRows rows" and "i < length rows"
    and "permitted g p" and "row_collection (rows ! i) = Some (collection p)"
  shows "display (showPack g p rows ! i) = ''list-item''"
proof -
  from assms(2,4) have "rows ! i \<in> set rows" by simp
  with assms(4) have "find (\<lambda>r. row_collection r = Some (collection p)) rows \<noteq> None"
    by (auto simp: find_None_iff)
  with assms(3) have "showPack g p rows = showRow (collection p) (dragDropCount g) rows"
    by (auto simp: showPack_def permitted_def)
  with showRow_nth_shown [OF assms(1,2,4)] show ?thesis by simp
qed


lemma showPacks_collection: "map row_collection (showPacks g ps rows) = map row_collection rows"
  by (induction ps arbitrary: rows) (simp_all add: showPack_collection)


lemma showPacks_nth_shown:
  "uniqueRows rows \<Longrightarrow> i < length rows \<Longrightarrow>
   display (rows ! i) = ''list-item''
     \<or> (\<exists>p \<in> set ps. permitted g p \<and> row_collection (rows ! i) = Some (collection p)) \<Longrightarrow>
   display (showPacks g ps rows ! i) = ''list-item''"
proof (induction ps arbitrary: rows)
  case Nil
  then show ?case by simp
next
  case (Cons p ps)
  from Cons.prems(2) have len: "i < length (showPack g p rows)"
    by (simp add: showPack_length)
  note rc = showPack_nth_collection [OF Cons.prems(2), of g p]
  have "display (showPack g p rows ! i) = ''list-item''
     \<or> (\<exists>q \<in> set ps. permitted g q \<and> row_collection (showPack g p rows ! i) = Some (collection q))"
  proof (cases "permitted g p \<and> row_collection (rows ! i) = Some (collection p)")
    case True
    with showPack_nth_shown [OF Cons.prems(1,2)] show ?thesis by simp
  next
    case False
    with Cons.prems(3) showPack_nth_display [OF Cons.prems(2), of g p] rc show ?thesis
      by auto
  qed
  from Cons.IH [OF uniqueRows_showPack [OF Cons.prems(1)] len this] show ?case by simp
qed


lemma hideRows_empty: "hideRows g [] fps rows = rows"
  by (simp add: hideRows_def)

lemma onSearchFilter_rows:
  "packRows (fst (onSearchFilter g eng q d)) =
     hideRows g q (filteredPacks g q) (showPacks g (filteredPacks g q) (packRows d))"
  by (simp add: onSearchFilter_def Let_def split: option.splits)



lemma onSearchFilter_collection:
  "map row_collection (packRows (fst (onSearchFilter g eng q d))) = map row_collection (packRows d)"
proof -
  have "map row_collection (hideRows g q fps rows) = map row_collection rows" for fps rows
    by (simp add: hideRows_def comp_def)
  then show ?thesis
    by (simp add: onSearchFilter_rows showPacks_collection)
qed


section \<open>Rendering of the match rows\<close>

lemma makeLi_error: "makeLi g tmpl m = Inl e \<Longrightarrow> e = TypeError"
  by (auto simp: makeLi_def split: option.splits if_splits)

lemma makeLi_complete: "complete tmpl \<Longrightarrow> \<exists>li. makeLi g tmpl m = Inr li"
  by (auto simp: makeLi_def complete_def split: option.splits)

lemma makeLis_Inl_iff:
  "(\<exists>e. makeLis g tmpl ms = Inl e) \<longleftrightarrow> (\<exists>m \<in> set ms. makeLi g tmpl m = Inl TypeError)"
proof (induction ms)
  case Nil
  show ?case by simp
next
  case (Cons m ms)
  show ?case
  proof (cases "makeLi g tmpl m")
    case (Inl e)
    with makeLi_error [OF Inl] show ?thesis by auto
  next
    case (Inr li)
    with Cons.IH show ?thesis
      by (cases "makeLis g tmpl ms") auto
  qed
qed

lemma makeLis_error: "makeLis g tmpl ms = Inl e \<Longrightarrow> e = TypeError"
proof (induction ms arbitrary: e)
  case Nil
  then show ?case by simp
next
  case (Cons m ms)
  then show ?case
    by (auto split: sum.splits dest: makeLi_error)
qed

lemma renderTypeLists_error:
  "snd (renderTypeLists g tmpl dms ls) = Some e \<Longrightarrow> e = TypeError"
proof (induction ls)
  case Nil
  then show ?case by simp
next
  case (Cons l ls)
  then show ?case
    by (auto simp: Let_def split: sum.splits dest: makeLis_error)
qed

lemma renderTypeLists_throws_iff:
  "snd (renderTypeLists g tmpl dms ls) = Some TypeError \<longleftrightarrow>
     (\<exists>l \<in> set ls. \<exists>m \<in> set (typedMatches dms l). makeLi g tmpl m = Inl TypeError)"
proof (induction ls)
  case Nil
  show ?case by simp
next
  case (Cons l ls)
  show ?case
  proof (cases "makeLis g tmpl (typedMatches dms l)")
    case (Inl e)
    from makeLis_error [OF Inl] Inl makeLis_Inl_iff [of g tmpl "typedMatches dms l"]
    show ?thesis by auto
  next
    case (Inr lis)
    with makeLis_Inl_iff [of g tmpl "typedMatches dms l"]
    have "\<not> (\<exists>m \<in> set (typedMatches dms l). makeLi g tmpl m = Inl TypeError)"
      by simp
    with Inr Cons.IH show ?thesis
      by (simp add: Let_def)
  qed
qed

lemma onSearchFilter_error:
  "snd (onSearchFilter g eng q d) =
     (if docMatches eng q = [] then None
      else case matchTemplate d of
             None \<Rightarrow> Some (ErrorPF2e ''Match template not found'')
           | Some tmpl \<Rightarrow> snd (renderTypeLists g tmpl (docMatches eng q) (typeLists d)))"
  by (simp add: onSearchFilter_def Let_def split: option.splits)


lemma scenario_gob_matches:
  "docMatches scenarioEngine ''gob'' =
     [\<lparr>r_id = ''e1'', r_img = None,
       r_metadata = \<lparr>md_id = ''p1'', md_label = ''Bestiary'', md_type = ''Actor''\<rparr>,
       r_name = ''Goblin Warrior'', r_type = ''npc''\<rparr>]"
  by code_simp

section \<open>Document search\<close>

text \<open>
  Claim C2, as amended. For every query \<open>Q\<close> and every match the document search of the
  directory returns for it (none when \<open>Q\<close> is empty), every term of \<open>Q\<close> is a prefix of a term of the
  match's display name, the terms of a string being what the engine's term pipeline makes
  of it: all terms must match (AND), each by prefix, and nothing else matches. Spelled out,
  every token of \<open>Q\<close> of length at least 2 is, case-folded, a prefix of a case-folded token
  of the name; a shorter piece of the query is dropped before matching and constrains
  nothing.
\<close>

theorem search_all_terms_prefix:
  assumes "constructor g = Inr eng" and "m \<in> set (docMatches eng Q)"
  shows "(\<forall>qt \<in> set (processTerms (searchEngineOptions g) Q).
            \<exists>tok \<in> set (processTerms (searchEngineOptions g) (r_name m)). prefix qt tok)
       \<and> (\<forall>t \<in> set (tokenize g Q). 2 \<le> length t \<longrightarrow>
            (\<exists>tok \<in> set (tokenize g (r_name m)). 2 \<le> length tok
               \<and> prefix (toLocaleLowerCase g t) (toLocaleLowerCase g tok)))"
proof -
  note inv = constructor_invariants [OF assms(1)]
  from assms(2) have m: "m \<in> set (search eng Q)"
    by (simp add: docMatches_subset)
  have c: "opt_combineWith (ms_options eng) = AND"
    by (simp add: inv(1) searchEngineOptions_def)
  have terms: "\<exists>tok \<in> set (processTerms (searchEngineOptions g) (r_name m)). prefix qt tok"
    if "qt \<in> set (processTerms (searchEngineOptions g) Q)" for qt
  proof -
    from that have q: "qt \<in> set (processTerms (ms_options eng) Q)"
      by (simp add: inv(1))
    from search_sound [OF m c inv(3,4) q]
    obtain k where k: "k \<in> set (processTerms (ms_options eng) (r_name m))"
      "termMatches (ms_options eng) qt k"
      by blast
    from k(2) have "prefix qt k"
      by (auto simp: termMatches_def)
    with k(1) show ?thesis
      by (auto simp: inv(1))
  qed
  have tokens: "\<exists>tok \<in> set (tokenize g (r_name m)). 2 \<le> length tok
               \<and> prefix (toLocaleLowerCase g t) (toLocaleLowerCase g tok)"
    if "t \<in> set (tokenize g Q)" and "2 \<le> length t" for t
  proof -
    from that have "toLocaleLowerCase g t \<in> set (processTerms (searchEngineOptions g) Q)"
      by (simp add: processTerms_searchEngineOptions)
    from terms [OF this] show ?thesis
      by (auto simp: processTerms_searchEngineOptions)
  qed
  from terms tokens show ?thesis by blast
qed

theorem search_all_terms_prefix_witness:
  "constructor scenarioGame = Inr scenarioEngine
   \<and> docMatches scenarioEngine ''war gob'' =
       [\<lparr>r_id = ''e1'', r_img = None,
         r_metadata = \<lparr>md_id = ''p1'', md_label = ''Bestiary'', md_type = ''Actor''\<rparr>,
         r_name = ''Goblin Warrior'', r_type = ''npc''\<rparr>]
   \<and> tokenize scenarioGame ''war gob'' = [''war'', ''gob'']
   \<and> (\<exists>tok \<in> set (tokenize scenarioGame ''Goblin Warrior''). 2 \<le> length tok
         \<and> prefix (toLocaleLowerCase scenarioGame ''gob'') (toLocaleLowerCase scenarioGame tok))
   \<and> (\<exists>tok \<in> set (tokenize scenarioGame ''Goblin Warrior''). 2 \<le> length tok
         \<and> prefix (toLocaleLowerCase scenarioGame ''war'') (toLocaleLowerCase scenarioGame tok))"
proof -
  let ?m = "\<lparr>r_id = ''e1'', r_img = None,
         r_metadata = \<lparr>md_id = ''p1'', md_label = ''Bestiary'', md_type = ''Actor''\<rparr>,
         r_name = ''Goblin Warrior'', r_type = ''npc''\<rparr>"
  have d: "docMatches scenarioEngine ''war gob'' = [?m]"
    by code_simp
  have t: "tokenize scenarioGame ''war gob'' = [''war'', ''gob'']"
    by code_simp
  from d have "?m \<in> set (docMatches scenarioEngine ''war gob'')"
    by simp
  from search_all_terms_prefix [OF scenario_constructor this] t
  have "\<exists>tok \<in> set (tokenize scenarioGame ''Goblin Warrior''). 2 \<le> length tok
         \<and> prefix (toLocaleLowerCase scenarioGame ''gob'') (toLocaleLowerCase scenarioGame tok)"
    and "\<exists>tok \<in> set (tokenize scenarioGame ''Goblin Warrior''). 2 \<le> length tok
         \<and> prefix (toLocaleLowerCase scenarioGame ''war'') (toLocaleLowerCase scenarioGame tok)"
    by simp_all
  with scenario_constructor d t show ?thesis by simp
qed

text \<open>
  Claim C2 as stated fails: the query "a gob" has the terms "a" and "gob", the document
  search returns "Goblin Warrior" for it, and "a" is a prefix of neither token of the
  folded name.
\<close>

theorem short_query_term_ignored:
  "tokenize scenarioGame ''a gob'' = [''a'', ''gob'']
   \<and> docMatches scenarioEngine ''a gob'' =
       [\<lparr>r_id = ''e1'', r_img = None,
         r_metadata = \<lparr>md_id = ''p1'', md_label = ''Bestiary'', md_type = ''Actor''\<rparr>,
         r_name = ''Goblin Warrior'', r_type = ''npc''\<rparr>]
   \<and> tokenize scenarioGame ''Goblin Warrior'' = [''Goblin'', ''Warrior'']
   \<and> toLocaleLowerCase scenarioGame ''Goblin Warrior'' = ''goblin warrior''
   \<and> tokenize scenarioGame ''goblin warrior'' = [''goblin'', ''warrior'']
   \<and> \<not> prefix (toLocaleLowerCase scenarioGame ''a'') ''goblin''
   \<and> \<not> prefix (toLocaleLowerCase scenarioGame ''a'') ''warrior''"
proof -
  have "tokenize scenarioGame ''a gob'' = [''a'', ''gob'']"
    by code_simp
  moreover have "docMatches scenarioEngine ''a gob'' =
       [\<lparr>r_id = ''e1'', r_img = None,
         r_metadata = \<lparr>md_id = ''p1'', md_label = ''Bestiary'', md_type = ''Actor''\<rparr>,
         r_name = ''Goblin Warrior'', r_type = ''npc''\<rparr>]"
    by code_simp
  moreover have "tokenize scenarioGame ''Goblin Warrior'' = [''Goblin'', ''Warrior'']"
    by code_simp
  moreover have "toLocaleLowerCase scenarioGame ''Goblin Warrior'' = ''goblin warrior''"
    by code_simp
  moreover have "tokenize scenarioGame ''goblin warrior'' = [''goblin'', ''warrior'']"
    by code_simp
  moreover have "\<not> prefix (toLocaleLowerCase scenarioGame ''a'') ''goblin''"
    by code_simp
  moreover have "\<not> prefix (toLocaleLowerCase scenarioGame ''a'') ''warrior''"
    by code_simp
  ultimately show ?thesis by simp
qed

text \<open>
  Claim C8. The term processor drops a term shorter than 2 code units and lowercases
  every other term with the case folding of the active language. Hence the terms of a
  string are the folded tokens of length at least 2, every term of the compiled index is
  such a token of a stored name (a shorter one is not indexed), and a query whose tokens
  are all shorter than 2 matches nothing.
\<close>

theorem processTerm_drops_short_terms:
  "(length t < 2 \<longrightarrow> processTerm g t = None)
   \<and> (2 \<le> length u \<longrightarrow> processTerm g u = Some (toLocaleLowerCase g u))
   \<and> processTerms (searchEngineOptions g) s =
       map (toLocaleLowerCase g) (filter (\<lambda>t. 2 \<le> length t) (tokenize g s))
   \<and> (constructor g = Inr eng \<longrightarrow>
        (\<forall>k \<in> fst ` set (ms_index eng). \<exists>n v. n \<in> set (map s_name (map snd (ms_stored eng)))
            \<and> v \<in> set (tokenize g n) \<and> 2 \<le> length v \<and> k = toLocaleLowerCase g v))
   \<and> (constructor g = Inr eng \<and> (\<forall>v \<in> set (tokenize g q). length v < 2) \<longrightarrow> search eng q = [])"
proof (intro conjI impI)
  show "processTerm g t = None" if "length t < 2"
    using that by (simp add: processTerm_def)
  show "processTerm g u = Some (toLocaleLowerCase g u)" if "2 \<le> length u"
    using that by (simp add: processTerm_def)
  show "processTerms (searchEngineOptions g) s =
       map (toLocaleLowerCase g) (filter (\<lambda>t. 2 \<le> length t) (tokenize g s))"
    by (rule processTerms_searchEngineOptions)
  show "\<forall>k \<in> fst ` set (ms_index eng). \<exists>n v. n \<in> set (map s_name (map snd (ms_stored eng)))
            \<and> v \<in> set (tokenize g n) \<and> 2 \<le> length v \<and> k = toLocaleLowerCase g v"
    if c: "constructor g = Inr eng"
  proof
    fix k
    assume k: "k \<in> fst ` set (ms_index eng)"
    from c have a: "addAll (indexedDocuments g) (newMiniSearch (searchEngineOptions g)) = Inr eng"
      by (simp add: constructor_addAll)
    from addAll_keys [OF a] k obtain d where d: "d \<in> set (indexedDocuments g)"
      "k \<in> set (processTerms (searchEngineOptions g) (d_name d))"
      by (auto simp: newMiniSearch_def)
    from d(1) have "d_name d \<in> set (map s_name (map snd (ms_stored eng)))"
      by (force simp: constructor_invariants(2) [OF c] store_def)
    moreover from d(2) obtain v where "v \<in> set (tokenize g (d_name d))" "2 \<le> length v"
      "k = toLocaleLowerCase g v"
      by (auto simp: processTerms_searchEngineOptions)
    ultimately show "\<exists>n v. n \<in> set (map s_name (map snd (ms_stored eng)))
            \<and> v \<in> set (tokenize g n) \<and> 2 \<le> length v \<and> k = toLocaleLowerCase g v"
      by blast
  qed
  show "search eng q = []"
    if h: "constructor g = Inr eng \<and> (\<forall>v \<in> set (tokenize g q). length v < 2)"
  proof -
    from h have c: "constructor g = Inr eng" by simp
    from h have "filter (\<lambda>t. 2 \<le> length t) (tokenize g q) = []"
      by (auto simp: filter_empty_conv)
    then have "processTerms (ms_options eng) q = []"
      by (simp add: constructor_invariants(1) [OF c] processTerms_searchEngineOptions)
    then show ?thesis
      by (simp add: search_def)
  qed
qed


theorem processTerm_drops_short_terms_witness:
  "processTerm scenarioGame ''a'' = None
   \<and> processTerm scenarioGame ''Go'' = Some ''go''
   \<and> map fst (ms_index scenarioEngine) = [''goblin'', ''warrior'']
   \<and> search scenarioEngine ''a b'' = []"
proof -
  have l: "toLocaleLowerCase scenarioGame ''Go'' = ''go''"
    by code_simp
  have short: "\<forall>v \<in> set (tokenize scenarioGame ''a b''). length v < 2"
    by code_simp
  have keys: "map fst (ms_index scenarioEngine) = [''goblin'', ''warrior'']"
    by code_simp
  from processTerm_drops_short_terms
    [of "''a''" scenarioGame "''Go''" "[]" scenarioEngine "''a b''"]
    scenario_constructor short l
  have "processTerm scenarioGame ''a'' = None \<and> processTerm scenarioGame ''Go'' = Some ''go''
        \<and> search scenarioEngine ''a b'' = []"
    by simp
  with keys show ?thesis by simp
qed

section \<open>Index construction\<close>

text \<open>
  Claim C4. When the constructor returns, the engine stores exactly the index entries of
  the eligible packs, in order: a pack is eligible iff its index is not empty, its document
  type is not \<^verbatim>\<open>JournalEntry\<close> and it is not private or the user is a GM. Each stored
  record keeps the entry's own type in \<open>s_type\<close> and carries the owning pack's metadata in
  the separate field \<open>s_metadata\<close>. The constructor does return when the identifiers of
  these entries are distinct.
\<close>

theorem searchIndex_contents:
  "(constructor g = Inr eng \<longrightarrow>
      ms_stored eng =
        concat (map (\<lambda>p. map (\<lambda>e. (e_id e, \<lparr>s_img = e_img e, s_metadata = metadata p,
                                           s_name = e_name e, s_type = e_type e\<rparr>)) (index p))
                 (filter (\<lambda>p. index p \<noteq> [] \<and> documentName p \<noteq> ''JournalEntry''
                               \<and> (\<not> is_private p \<or> isGM g)) (packs g))))
   \<and> (distinct (map d_id (indexedDocuments g)) \<longrightarrow> (\<exists>eng'. constructor g = Inr eng'))"
proof (intro conjI impI)
  assume c: "constructor g = Inr eng"
  have e: "eligible g = (\<lambda>p. index p \<noteq> [] \<and> documentName p \<noteq> ''JournalEntry''
                               \<and> (\<not> is_private p \<or> isGM g))"
    by (auto simp: eligible_def fun_eq_iff)
  show "ms_stored eng =
        concat (map (\<lambda>p. map (\<lambda>e. (e_id e, \<lparr>s_img = e_img e, s_metadata = metadata p,
                                           s_name = e_name e, s_type = e_type e\<rparr>)) (index p))
                 (filter (\<lambda>p. index p \<noteq> [] \<and> documentName p \<noteq> ''JournalEntry''
                               \<and> (\<not> is_private p \<or> isGM g)) (packs g)))"
    unfolding constructor_invariants(2) [OF c] indexedDocuments_def e
    by (simp add: map_concat comp_def store_def withMetadata_def)
next
  assume "distinct (map d_id (indexedDocuments g))"
  then show "\<exists>eng'. constructor g = Inr eng'"
    unfolding constructor_addAll
    by (intro addAll_succeeds) (simp_all add: newMiniSearch_def)
qed

theorem searchIndex_contents_witness:
  "constructor privacyGame = Inr privacyEngine
   \<and> ms_stored privacyEngine =
       [(''e1'', \<lparr>s_img = None,
                  s_metadata = \<lparr>md_id = ''p1'', md_label = ''Bestiary'', md_type = ''Actor''\<rparr>,
                  s_name = ''Goblin Warrior'', s_type = ''npc''\<rparr>)]
   \<and> distinct (map d_id (indexedDocuments privacyGame))"
proof -
  have d: "distinct (map d_id (indexedDocuments privacyGame))"
    by code_simp
  have r: "concat (map (\<lambda>p. map (\<lambda>e. (e_id e, \<lparr>s_img = e_img e, s_metadata = metadata p,
                                           s_name = e_name e, s_type = e_type e\<rparr>)) (index p))
                 (filter (\<lambda>p. index p \<noteq> [] \<and> documentName p \<noteq> ''JournalEntry''
                               \<and> (\<not> is_private p \<or> isGM privacyGame)) (packs privacyGame)))
           = [(''e1'', \<lparr>s_img = None,
                  s_metadata = \<lparr>md_id = ''p1'', md_label = ''Bestiary'', md_type = ''Actor''\<rparr>,
                  s_name = ''Goblin Warrior'', s_type = ''npc''\<rparr>)]"
    by (simp add: privacyGame_def englishGame_def bestiary_def secrets_def)
  from searchIndex_contents [of privacyGame privacyEngine] privacy_constructor r
  have "ms_stored privacyEngine =
       [(''e1'', \<lparr>s_img = None,
                  s_metadata = \<lparr>md_id = ''p1'', md_label = ''Bestiary'', md_type = ''Actor''\<rparr>,
                  s_name = ''Goblin Warrior'', s_type = ''npc''\<rparr>)]"
    by simp
  with privacy_constructor d show ?thesis by simp
qed

text \<open>
  Claim C5. Adding a record whose identifier is already present fails with the duplicate
  identifier error, for a single record and for a bulk insertion that contains one; a
  successful bulk insertion keeps the identifiers distinct and leaves every record that
  was there retrievable unchanged. The constructor fails with that error when two eligible
  entries share an identifier; when the \<open>N\<close> eligible entries have distinct identifiers it
  returns an engine with exactly \<open>N\<close> records, each retrievable by its own identifier.
\<close>

theorem duplicate_identifier_signalled:
  "(d_id d \<in> fst ` set (ms_stored ms) \<longrightarrow> ms_add d ms = Inl (DuplicateID (d_id d)))
   \<and> (set (map d_id ds) \<inter> fst ` set (ms_stored ms) \<noteq> {} \<longrightarrow>
        (\<exists>i. addAll ds ms = Inl (DuplicateID i)))
   \<and> (addAll ds ms = Inr ms' \<and> distinct (map fst (ms_stored ms)) \<longrightarrow>
        distinct (map fst (ms_stored ms'))
        \<and> (\<forall>i \<in> fst ` set (ms_stored ms). getStoredFields ms' i = getStoredFields ms i))
   \<and> (\<not> distinct (map d_id (indexedDocuments g)) \<longrightarrow>
        (\<exists>i. constructor g = Inl (DuplicateID i)))
   \<and> (distinct (map d_id (indexedDocuments g)) \<longrightarrow>
        (\<exists>eng. constructor g = Inr eng
           \<and> length (ms_stored eng) = length (indexedDocuments g)
           \<and> distinct (map fst (ms_stored eng))
           \<and> (\<forall>x \<in> set (indexedDocuments g). getStoredFields eng (d_id x) = Some (store x))))"
proof (intro conjI impI)
  show "ms_add d ms = Inl (DuplicateID (d_id d))" if "d_id d \<in> fst ` set (ms_stored ms)"
    using that by (simp add: ms_add_def)
  show "\<exists>i. addAll ds ms = Inl (DuplicateID i)"
    if "set (map d_id ds) \<inter> fst ` set (ms_stored ms) \<noteq> {}"
    using addAll_fails [of ds ms] that by blast
  show "distinct (map fst (ms_stored ms'))"
    if "addAll ds ms = Inr ms' \<and> distinct (map fst (ms_stored ms))"
    using that addAll_distinct by blast
  show "\<forall>i \<in> fst ` set (ms_stored ms). getStoredFields ms' i = getStoredFields ms i"
    if h: "addAll ds ms = Inr ms' \<and> distinct (map fst (ms_stored ms))"
  proof
    fix i
    assume i: "i \<in> fst ` set (ms_stored ms)"
    from h have st: "ms_stored ms' = ms_stored ms @ map (\<lambda>d. (d_id d, store d)) ds"
      using addAll_Inr_stored by blast
    from i have "i \<in> dom (map_of (ms_stored ms))"
      by (simp add: dom_map_of_conv_image_fst)
    then show "getStoredFields ms' i = getStoredFields ms i"
      by (auto simp: getStoredFields_def st map_add_dom_app_simps)
  qed
  show "\<exists>i. constructor g = Inl (DuplicateID i)"
    if "\<not> distinct (map d_id (indexedDocuments g))"
    using addAll_fails [of "indexedDocuments g" "newMiniSearch (searchEngineOptions g)"] that
    unfolding constructor_addAll by blast
  show "\<exists>eng. constructor g = Inr eng
           \<and> length (ms_stored eng) = length (indexedDocuments g)
           \<and> distinct (map fst (ms_stored eng))
           \<and> (\<forall>x \<in> set (indexedDocuments g). getStoredFields eng (d_id x) = Some (store x))"
    if dist: "distinct (map d_id (indexedDocuments g))"
  proof -
    from addAll_succeeds [OF dist, of "newMiniSearch (searchEngineOptions g)"]
    obtain eng where c: "constructor g = Inr eng"
      unfolding constructor_addAll by (auto simp: newMiniSearch_def)
    note inv = constructor_invariants [OF c]
    have "getStoredFields eng (d_id x) = Some (store x)" if "x \<in> set (indexedDocuments g)" for x
    proof -
      from that have "(d_id x, store x) \<in> set (ms_stored eng)"
        by (auto simp: inv(2))
      with inv(3) show ?thesis
        by (simp add: getStoredFields_def)
    qed
    with c inv(3) show ?thesis
      by (auto simp: inv(2))
  qed
qed

theorem duplicate_identifier_signalled_witness:
  "constructor collidingGame = Inl (DuplicateID ''e1'')
   \<and> \<not> distinct (map d_id (indexedDocuments collidingGame))
   \<and> constructor scenarioGame = Inr scenarioEngine
   \<and> length (ms_stored scenarioEngine) = 1
   \<and> getStoredFields scenarioEngine ''e1'' =
       Some \<lparr>s_img = None,
             s_metadata = \<lparr>md_id = ''p1'', md_label = ''Bestiary'', md_type = ''Actor''\<rparr>,
             s_name = ''Goblin Warrior'', s_type = ''npc''\<rparr>
   \<and> (\<exists>i. addAll (indexedDocuments scenarioGame) scenarioEngine = Inl (DuplicateID i))"
proof -
  have nd: "\<not> distinct (map d_id (indexedDocuments collidingGame))"
    by code_simp
  have "isl (constructor collidingGame)" and "projl (constructor collidingGame) = DuplicateID ''e1''"
    by code_simp+
  then have c: "constructor collidingGame = Inl (DuplicateID ''e1'')"
    by (metis sum.collapse(1))
  have docs: "indexedDocuments scenarioGame =
      [\<lparr>d_id = ''e1'', d_name = ''Goblin Warrior'', d_img = None, d_type = ''npc'',
        d_metadata = \<lparr>md_id = ''p1'', md_label = ''Bestiary'', md_type = ''Actor''\<rparr>\<rparr>]"
    by code_simp
  have dist: "distinct (map d_id (indexedDocuments scenarioGame))"
    by (simp add: docs)
  have coll: "set (map d_id (indexedDocuments scenarioGame)) \<inter> fst ` set (ms_stored scenarioEngine) \<noteq> {}"
    by (simp add: docs constructor_invariants(2) [OF scenario_constructor])
  from duplicate_identifier_signalled
    [of _ scenarioEngine "indexedDocuments scenarioGame" _ scenarioGame] coll dist
  have again: "\<exists>i. addAll (indexedDocuments scenarioGame) scenarioEngine = Inl (DuplicateID i)"
    and built: "\<exists>eng. constructor scenarioGame = Inr eng
           \<and> length (ms_stored eng) = length (indexedDocuments scenarioGame)
           \<and> distinct (map fst (ms_stored eng))
           \<and> (\<forall>x \<in> set (indexedDocuments scenarioGame). getStoredFields eng (d_id x) = Some (store x))"
    by blast+
  from built have "length (ms_stored scenarioEngine) = 1"
    and "getStoredFields scenarioEngine ''e1'' =
       Some \<lparr>s_img = None,
             s_metadata = \<lparr>md_id = ''p1'', md_label = ''Bestiary'', md_type = ''Actor''\<rparr>,
             s_name = ''Goblin Warrior'', s_type = ''npc''\<rparr>"
    by (auto simp: scenario_constructor docs store_def)
  with c nd scenario_constructor again show ?thesis by simp
qed

section \<open>Filter reconciliation\<close>

text \<open>
  Claim C1, as amended. In the scenario (pack \<^verbatim>\<open>p1\<close> "Bestiary" of type "Actor" with entry
  \<^verbatim>\<open>e1\<close> "Goblin Warrior", query "gob") the document pass returns exactly one match, with
  document id \<^verbatim>\<open>e1\<close> and owning pack id \<^verbatim>\<open>p1\<close>, and it is rendered in the match list of the
  "Actor" type group as \<^verbatim>\<open>Compendium.p1.e1\<close>; the call does not throw. The container pass
  hides row \<^verbatim>\<open>p1\<close>, because the folded title "bestiary" does not contain "gob": a document
  match does not make the row of its pack visible.
\<close>

theorem scenario_gob_result:
  "constructor scenarioGame = Inr scenarioEngine
   \<and> docMatches scenarioEngine ''gob'' =
       [\<lparr>r_id = ''e1'', r_img = None,
         r_metadata = \<lparr>md_id = ''p1'', md_label = ''Bestiary'', md_type = ''Actor''\<rparr>,
         r_name = ''Goblin Warrior'', r_type = ''npc''\<rparr>]
   \<and> \<not> sublist ''gob'' (toLocaleLowerCase scenarioGame (title bestiary))
   \<and> packRows (fst (onSearchFilter scenarioGame scenarioEngine ''gob'' scenarioDom)) =
       [\<lparr>row_collection = Some ''p1'', display = ''none'', binds = 0\<rparr>]
   \<and> map tl_type (typeLists (fst (onSearchFilter scenarioGame scenarioEngine ''gob'' scenarioDom)))
       = [Some ''Actor'']
   \<and> map (map_option (map li_uuid) \<circ> documentMatches)
         (typeLists (fst (onSearchFilter scenarioGame scenarioEngine ''gob'' scenarioDom)))
       = [Some [''Compendium.p1.e1'']]
   \<and> snd (onSearchFilter scenarioGame scenarioEngine ''gob'' scenarioDom) = None"
proof -
  have "\<not> sublist ''gob'' (toLocaleLowerCase scenarioGame (title bestiary))"
    by code_simp
  moreover have "packRows (fst (onSearchFilter scenarioGame scenarioEngine ''gob'' scenarioDom)) =
       [\<lparr>row_collection = Some ''p1'', display = ''none'', binds = 0\<rparr>]"
    by code_simp
  moreover have "map tl_type (typeLists (fst (onSearchFilter scenarioGame scenarioEngine ''gob'' scenarioDom)))
       = [Some ''Actor'']"
    by code_simp
  moreover have "map (map_option (map li_uuid) \<circ> documentMatches)
         (typeLists (fst (onSearchFilter scenarioGame scenarioEngine ''gob'' scenarioDom)))
       = [Some [''Compendium.p1.e1'']]"
    by code_simp
  moreover have "snd (onSearchFilter scenarioGame scenarioEngine ''gob'' scenarioDom) = None"
    by code_simp
  ultimately show ?thesis
    using scenario_constructor scenario_gob_matches by simp
qed


text \<open>
  Claim C1 as stated fails: the row \<^verbatim>\<open>p1\<close>, visible before the call, has
  \<^verbatim>\<open>display: none\<close> after it, although the document pass found \<^verbatim>\<open>e1\<close>.
\<close>

theorem scenario_gob_row_hidden:
  "\<not> matchesQuery scenarioGame ''gob'' bestiary
   \<and> map r_id (docMatches scenarioEngine ''gob'') = [''e1'']
   \<and> map row_collection (packRows (fst (onSearchFilter scenarioGame scenarioEngine ''gob'' scenarioDom)))
       = [Some ''p1'']
   \<and> map display (packRows (fst (onSearchFilter scenarioGame scenarioEngine ''gob'' scenarioDom)))
       = [''none'']"
proof -
  have "\<not> matchesQuery scenarioGame ''gob'' bestiary"
    by code_simp
  moreover have "map row_collection (packRows (fst (onSearchFilter scenarioGame scenarioEngine ''gob'' scenarioDom)))
       = [Some ''p1'']"
    by code_simp
  moreover have "map display (packRows (fst (onSearchFilter scenarioGame scenarioEngine ''gob'' scenarioDom)))
       = [''none'']"
    by code_simp
  ultimately show ?thesis
    by (simp add: scenario_gob_matches)
qed



text \<open>
  Claim C9. With the empty query there are no document matches, the search engine is not
  consulted (the result is the same for every engine), nothing is thrown, the match lists
  are untouched, and every row of a pack the viewer is permitted to see (not private, or
  the viewer is a GM) is set to \<^verbatim>\<open>list-item\<close>, the directory having one row per pack.
\<close>

theorem empty_query_shows_permitted_rows:
  assumes "uniqueRows (packRows d)"
  shows "docMatches eng [] = []
       \<and> snd (onSearchFilter g eng [] d) = None
       \<and> onSearchFilter g eng' [] d = onSearchFilter g eng [] d
       \<and> typeLists (fst (onSearchFilter g eng [] d)) = typeLists d
       \<and> map row_collection (packRows (fst (onSearchFilter g eng [] d))) =
           map row_collection (packRows d)
       \<and> (\<forall>i < length (packRows d).
            (\<exists>p \<in> set (packs g). \<not> (is_private p \<and> \<not> isGM g)
                \<and> row_collection (packRows d ! i) = Some (collection p)) \<longrightarrow>
            display (packRows (fst (onSearchFilter g eng [] d)) ! i) = ''list-item'')"
proof (intro conjI allI impI)
  show "docMatches eng [] = []"
    by (simp add: docMatches_def)
  show "snd (onSearchFilter g eng [] d) = None"
    by (simp add: onSearchFilter_def docMatches_def Let_def)
  show "onSearchFilter g eng' [] d = onSearchFilter g eng [] d"
    by (simp add: onSearchFilter_def docMatches_def Let_def)
  show "typeLists (fst (onSearchFilter g eng [] d)) = typeLists d"
    by (simp add: onSearchFilter_def docMatches_def Let_def)
  show "map row_collection (packRows (fst (onSearchFilter g eng [] d))) =
           map row_collection (packRows d)"
    by (rule onSearchFilter_collection)
next
  fix i
  assume i: "i < length (packRows d)"
    and "\<exists>p \<in> set (packs g). \<not> (is_private p \<and> \<not> isGM g)
                \<and> row_collection (packRows d ! i) = Some (collection p)"
  then have "display (packRows d ! i) = ''list-item''
     \<or> (\<exists>p \<in> set (packs g). permitted g p \<and> row_collection (packRows d ! i) = Some (collection p))"
    by (simp add: permitted_def)
  from showPacks_nth_shown [OF assms i this]
  show "display (packRows (fst (onSearchFilter g eng [] d)) ! i) = ''list-item''"
    by (simp add: onSearchFilter_rows hideRows_empty filteredPacks_def)
qed

theorem empty_query_shows_permitted_rows_witness:
  "uniqueRows (packRows privacyDom)
   \<and> docMatches privacyEngine [] = []
   \<and> snd (onSearchFilter privacyGame privacyEngine [] privacyDom) = None
   \<and> map row_collection (packRows privacyDom) = [Some ''p1'', Some ''p2'']
   \<and> display (packRows privacyDom ! 0) = ''none''
   \<and> display (packRows (fst (onSearchFilter privacyGame privacyEngine [] privacyDom)) ! 0)
       = ''list-item''"
proof -
  have u: "uniqueRows (packRows privacyDom)"
    by (simp add: uniqueRows_def privacyDom_def)
  have r: "0 < length (packRows privacyDom)"
    "map row_collection (packRows privacyDom) = [Some ''p1'', Some ''p2'']"
    "display (packRows privacyDom ! 0) = ''none''"
    by (simp_all add: privacyDom_def)
  have p: "bestiary \<in> set (packs privacyGame)" "\<not> (is_private bestiary \<and> \<not> isGM privacyGame)"
    "row_collection (packRows privacyDom ! 0) = Some (collection bestiary)"
    by (simp_all add: privacyGame_def englishGame_def bestiary_def privacyDom_def)
  from empty_query_shows_permitted_rows [OF u, of privacyEngine privacyGame privacyEngine] r(1) p
  have "docMatches privacyEngine [] = []"
    and "snd (onSearchFilter privacyGame privacyEngine [] privacyDom) = None"
    and "display (packRows (fst (onSearchFilter privacyGame privacyEngine [] privacyDom)) ! 0)
       = ''list-item''"
    by blast+
  with u r show ?thesis by simp
qed

text \<open>
  Claim C6, as amended. Zero document matches never raise, and the rows have no influence
  on whether the call throws. The call throws exactly when a document match exists and the
  match template is absent, also when no row is visible; what it throws is the
  configuration error "Match template not found", and the match lists are left as they
  were. The template, when present, has the row element with the image, the anchor and the
  span, as the non-null assertions of the source state.
\<close>

theorem onSearchFilter_throws:
  assumes "\<forall>t. matchTemplate d = Some t \<longrightarrow> complete t"
  shows "(docMatches eng q = [] \<longrightarrow> snd (onSearchFilter g eng q d) = None)
       \<and> (snd (onSearchFilter g eng q d) \<noteq> None
            \<longleftrightarrow> docMatches eng q \<noteq> [] \<and> matchTemplate d = None)
       \<and> (snd (onSearchFilter g eng q d) \<noteq> None \<longrightarrow>
            snd (onSearchFilter g eng q d) = Some (ErrorPF2e ''Match template not found'')
            \<and> typeLists (fst (onSearchFilter g eng q d)) = typeLists d)
       \<and> snd (onSearchFilter g eng q (d\<lparr>packRows := rows\<rparr>)) = snd (onSearchFilter g eng q d)"
proof -
  have rendered: "snd (renderTypeLists g t (docMatches eng q) (typeLists d)) = None"
    if t: "matchTemplate d = Some t" for t
  proof (cases "snd (renderTypeLists g t (docMatches eng q) (typeLists d))")
    case None
    then show ?thesis .
  next
    case (Some e)
    from renderTypeLists_error [OF Some] Some
      renderTypeLists_throws_iff [of g t "docMatches eng q" "typeLists d"]
    obtain m where "makeLi g t m = Inl TypeError" by auto
    moreover from assms t have "complete t" by simp
    ultimately show ?thesis
      using makeLi_complete [of t g m] by simp
  qed
  have iff: "snd (onSearchFilter g eng q d) \<noteq> None
            \<longleftrightarrow> docMatches eng q \<noteq> [] \<and> matchTemplate d = None"
    using rendered by (auto simp: onSearchFilter_error split: option.splits)
  have zero: "docMatches eng q = [] \<longrightarrow> snd (onSearchFilter g eng q d) = None"
    by (simp add: onSearchFilter_error)
  have which: "snd (onSearchFilter g eng q d) = Some (ErrorPF2e ''Match template not found'')
            \<and> typeLists (fst (onSearchFilter g eng q d)) = typeLists d"
    if "snd (onSearchFilter g eng q d) \<noteq> None"
  proof -
    from that iff have "docMatches eng q \<noteq> []" "matchTemplate d = None"
      by simp_all
    then show ?thesis
      by (simp add: onSearchFilter_def Let_def)
  qed
  have rows: "snd (onSearchFilter g eng q (d\<lparr>packRows := rows\<rparr>)) = snd (onSearchFilter g eng q d)"
    by (simp add: onSearchFilter_error split: option.splits)
  from zero iff which rows show ?thesis by blast
qed

theorem onSearchFilter_throws_witness:
  "complete completeTemplate
   \<and> matchTemplate scenarioDom = Some completeTemplate
   \<and> matchTemplate noTemplateDom = None
   \<and> docMatches scenarioEngine ''zz'' = []
   \<and> snd (onSearchFilter scenarioGame scenarioEngine ''zz'' noTemplateDom) = None
   \<and> docMatches scenarioEngine ''gob'' \<noteq> []
   \<and> snd (onSearchFilter scenarioGame scenarioEngine ''gob'' scenarioDom) = None
   \<and> snd (onSearchFilter scenarioGame scenarioEngine ''gob'' noTemplateDom)
       = Some (ErrorPF2e ''Match template not found'')
   \<and> typeLists (fst (onSearchFilter scenarioGame scenarioEngine ''gob'' noTemplateDom))
       = typeLists noTemplateDom"
proof -
  have zz: "docMatches scenarioEngine ''zz'' = []"
    by code_simp
  have gob: "docMatches scenarioEngine ''gob'' \<noteq> []"
    by (simp add: scenario_gob_matches)
  have ct: "complete completeTemplate" "matchTemplate scenarioDom = Some completeTemplate"
    by (simp_all add: scenarioDom_def completeTemplate_def complete_def)
  have nt: "matchTemplate noTemplateDom = None"
    by (simp add: noTemplateDom_def)
  from ct have h1: "\<forall>t. matchTemplate scenarioDom = Some t \<longrightarrow> complete t"
    by simp
  from nt have h2: "\<forall>t. matchTemplate noTemplateDom = Some t \<longrightarrow> complete t"
    by simp
  from onSearchFilter_throws [OF h2, of scenarioEngine "''zz''" scenarioGame] zz
  have 1: "snd (onSearchFilter scenarioGame scenarioEngine ''zz'' noTemplateDom) = None"
    by simp
  from onSearchFilter_throws [OF h1, of scenarioEngine "''gob''" scenarioGame] ct(2)
  have 2: "snd (onSearchFilter scenarioGame scenarioEngine ''gob'' scenarioDom) = None"
    by simp
  from onSearchFilter_throws [OF h2, of scenarioEngine "''gob''" scenarioGame] gob nt
  have 3: "snd (onSearchFilter scenarioGame scenarioEngine ''gob'' noTemplateDom)
       = Some (ErrorPF2e ''Match template not found'')"
    and 4: "typeLists (fst (onSearchFilter scenarioGame scenarioEngine ''gob'' noTemplateDom))
       = typeLists noTemplateDom"
    by simp_all
  from ct nt zz 1 gob 2 3 4 show ?thesis by simp
qed

text \<open>
  Claim C6 as stated fails: in the scenario without the match template, the query "gob"
  leaves no row visible (the only row is hidden), and the call raises all the same,
  because a document match exists.
\<close>

theorem no_visible_row_yet_throws:
  "map display (packRows (fst (onSearchFilter scenarioGame scenarioEngine ''gob'' noTemplateDom)))
     = [''none'']
   \<and> snd (onSearchFilter scenarioGame scenarioEngine ''gob'' noTemplateDom)
       = Some (ErrorPF2e ''Match template not found'')"
proof -
  have "map display (packRows (fst (onSearchFilter scenarioGame scenarioEngine ''gob'' noTemplateDom)))
     = [''none'']"
    by code_simp
  moreover have "snd (onSearchFilter scenarioGame scenarioEngine ''gob'' noTemplateDom)
       = Some (ErrorPF2e ''Match template not found'')"
    by code_simp
  ultimately show ?thesis by simp
qed

section \<open>Drag payload\<close>

text \<open>
  Claim C7. A drag started on an element whose dataset carries the collection id \<open>C\<close> and
  the document id \<open>D\<close> (both non-empty, as the guard of the method requires), where
  \<open>C\<close> resolves to a pack of document type \<open>T\<close> and \<open>D\<close> to an entry of its index, succeeds
  and transfers exactly \<^verbatim>\<open>{ type: T, uuid: "Compendium.C.D" }\<close>.
\<close>

theorem onDragStart_payload:
  assumes "ds_collection e = Some C" and "ds_documentId e = Some D"
    and "C \<noteq> []" and "D \<noteq> []"
    and "packs_get g C = Some p" and "index_get p D = Some entry"
  shows "\<exists>st'. onDragStart g e st = Inr st'
           \<and> transferData st' =
               Some \<lparr>dd_type = documentName p, dd_uuid = ''Compendium.'' @ C @ ''.'' @ D\<rparr>"
  using assms packs_get_collection [OF assms(5)]
  by (simp add: onDragStart_def truthy_def Let_def)

theorem onDragStart_payload_witness:
  "\<exists>st'. onDragStart (englishGame [worldBestiary] False)
            \<lparr>ds_collection = Some ''world.bestiary'', ds_documentId = Some ''e1''\<rparr> noDrag = Inr st'
         \<and> transferData st' =
             Some \<lparr>dd_type = ''Actor'', dd_uuid = ''Compendium.world.bestiary.e1''\<rparr>"
proof -
  let ?g = "englishGame [worldBestiary] False"
  have a: "packs_get ?g ''world.bestiary'' = Some worldBestiary"
    by (simp add: packs_get_def englishGame_def worldBestiary_def bestiary_def)
  have b: "index_get worldBestiary ''e1'' =
             Some \<lparr>e_id = ''e1'', e_name = ''Goblin Warrior'', e_img = None, e_type = ''npc''\<rparr>"
    by (simp add: index_get_def worldBestiary_def bestiary_def)
  have c: "documentName worldBestiary = ''Actor''"
    by (simp add: worldBestiary_def bestiary_def)
  show ?thesis
    using onDragStart_payload
      [of "\<lparr>ds_collection = Some ''world.bestiary'', ds_documentId = Some ''e1''\<rparr>"
          "''world.bestiary''" "''e1''" ?g worldBestiary _ noDrag, OF _ _ _ _ a b]
    by (simp add: c)
qed

text \<open>
  Claim C10. When the dataset of the drag element lacks the collection id or the document
  id (absent, or the empty string), \<^verbatim>\<open>_onDragStart\<close> returns normally and leaves the
  preview element, the drag image and the transfer data as they were; it throws only when
  both identifiers are present.
\<close>

theorem onDragStart_missing_id:
  "(\<not> (truthy (ds_collection e) \<and> truthy (ds_documentId e)) \<longrightarrow> onDragStart g e st = Inr st)
   \<and> (onDragStart g e st = Inl err \<longrightarrow> truthy (ds_collection e) \<and> truthy (ds_documentId e))"
  by (auto simp: onDragStart_def)

theorem onDragStart_missing_id_witness:
  "\<not> (truthy (Some ''world.bestiary'') \<and> truthy None)
   \<and> onDragStart (englishGame [worldBestiary] False)
        \<lparr>ds_collection = Some ''world.bestiary'', ds_documentId = None\<rparr>
        \<lparr>preview = Some \<lparr>preview_img = None, preview_title = ''Old''\<rparr>,
         dragImage = None, transferData = None\<rparr>
       = Inr \<lparr>preview = Some \<lparr>preview_img = None, preview_title = ''Old''\<rparr>,
              dragImage = None, transferData = None\<rparr>
   \<and> onDragStart (englishGame [worldBestiary] False)
        \<lparr>ds_collection = Some ''nowhere'', ds_documentId = Some ''e1''\<rparr> noDrag
       = Inl (StrictNotFound ''nowhere'')
   \<and> truthy (Some ''nowhere'') \<and> truthy (Some ''e1'')"
proof -
  let ?g = "englishGame [worldBestiary] False"
  let ?e = "\<lparr>ds_collection = Some ''world.bestiary'', ds_documentId = None\<rparr>"
  let ?st = "\<lparr>preview = Some \<lparr>preview_img = None, preview_title = ''Old''\<rparr>,
              dragImage = None, transferData = None\<rparr>"
  let ?e2 = "\<lparr>ds_collection = Some ''nowhere'', ds_documentId = Some ''e1''\<rparr>"
  have n: "\<not> (truthy (Some ''world.bestiary'') \<and> truthy None)"
    by (simp add: truthy_def)
  have thrown: "onDragStart ?g ?e2 noDrag = Inl (StrictNotFound ''nowhere'')"
    by (simp add: onDragStart_def truthy_def packs_get_def englishGame_def worldBestiary_def
        bestiary_def)
  from onDragStart_missing_id [of ?e ?g ?st] n
  have "onDragStart ?g ?e ?st = Inr ?st" by simp
  moreover from onDragStart_missing_id [of ?e2 ?g noDrag "StrictNotFound ''nowhere''"] thrown
  have "truthy (Some ''nowhere'') \<and> truthy (Some ''e1'')" by simp
  ultimately show ?thesis using n thrown by simp
qed

end
